theory Spec2Isabelle
  imports Main "HOL-Library.AList" "HOL-Library.Char_ord" "HOL-Library.List_Lexorder"
    "HOL-Library.Product_Lexorder" "HOL-Library.Multiset"
begin

section \<open>Python values, errors and dictionaries\<close>

text \<open>
  The exceptions that the modelled code can raise. \<open>DebuggerEntered\<close> stands for
  the \<^verbatim>\<open>except: import ipdb; ipdb.set_trace()\<close> branch of
  \<^verbatim>\<open>CleanReader.__iter__\<close>: the program hands control to an interactive debugger
  and the model stops following it there.
\<close>

datatype error =
    AttributeError | KeyError | StopIteration | RuntimeError | ValueError | TypeError
  | UnicodeEncodeError | ZeroDivisionError | OverflowError | DebuggerEntered

text \<open>
  The comparison value of a constraint is a Python object. The model covers the kinds the
  code distinguishes: \<^verbatim>\<open>str\<close>, \<^verbatim>\<open>int\<close>, \<^verbatim>\<open>float\<close> and
  \<^verbatim>\<open>datetime\<close>. Floats and datetimes are kept abstract (type parameters
  \<open>'f\<close> and \<open>'d\<close>); what the Python library does with them is a parameter of the
  model, collected in the record \<open>pylib\<close>.
\<close>

datatype ('f, 'd) pyval = PStr string | PInt int | PFloat 'f | PDatetime 'd

datatype cmp_op = Eq | Le | Ge | Lt | Gt

record ('f, 'd) pylib =
  float_of_str :: "string \<Rightarrow> 'f option"           \<comment> \<open>\<^verbatim>\<open>float(s)\<close>; \<open>None\<close> is ValueError\<close>
  parser_parse :: "string \<Rightarrow> 'd option"           \<comment> \<open>\<^verbatim>\<open>dateutil.parser.parse(s)\<close>; \<open>None\<close> is ValueError\<close>
  float_cmp :: "cmp_op \<Rightarrow> 'f \<Rightarrow> 'f \<Rightarrow> bool"
  int_float_cmp :: "cmp_op \<Rightarrow> int \<Rightarrow> 'f \<Rightarrow> bool"  \<comment> \<open>exact comparison of an int with a float\<close>
  datetime_cmp :: "cmp_op \<Rightarrow> 'd \<Rightarrow> 'd \<Rightarrow> error + bool"  \<comment> \<open>naive against aware raises TypeError\<close>
  int_truediv :: "int \<Rightarrow> int \<Rightarrow> error + 'f"       \<comment> \<open>\<^verbatim>\<open>a / b\<close> for \<open>b \<noteq> 0\<close>; may raise OverflowError\<close>
  int_mul_float :: "int \<Rightarrow> 'f \<Rightarrow> 'f"             \<comment> \<open>\<^verbatim>\<open>k * x\<close>\<close>
  format_1f :: "'f \<Rightarrow> string"                   \<comment> \<open>\<^verbatim>\<open>format(x, '.1f')\<close>\<close>

text \<open>
  A Python \<^verbatim>\<open>dict\<close> keeps its keys in insertion order; assigning to an existing key
  keeps the key's position. That is \<^const>\<open>AList.update\<close> on an association list.
\<close>

type_synonym ('k, 'v) dict = "('k \<times> 'v) list"

definition keys :: "('k, 'v) dict \<Rightarrow> 'k list" where
  "keys d = map fst d"

definition getitem :: "('k, 'v) dict \<Rightarrow> 'k \<Rightarrow> error + 'v" where
  "getitem d k = (case map_of d k of None \<Rightarrow> Inl KeyError | Some v \<Rightarrow> Inr v)"

subsection \<open>operator.eq, le, ge, lt, gt\<close>

definition flip_op :: "cmp_op \<Rightarrow> cmp_op" where
  "flip_op c = (case c of Eq \<Rightarrow> Eq | Le \<Rightarrow> Ge | Ge \<Rightarrow> Le | Lt \<Rightarrow> Gt | Gt \<Rightarrow> Lt)"

definition ord_cmp :: "cmp_op \<Rightarrow> ('a::linorder) \<Rightarrow> 'a \<Rightarrow> bool" where
  "ord_cmp c a b = (case c of Eq \<Rightarrow> a = b | Le \<Rightarrow> a \<le> b | Ge \<Rightarrow> b \<le> a | Lt \<Rightarrow> a < b | Gt \<Rightarrow> b < a)"

text \<open>
  \<^verbatim>\<open>cmp(a, b)\<close> for the operator \<open>c\<close>. Strings compare lexicographically by code
  point, numbers numerically; objects of unrelated types are unequal under \<^verbatim>\<open>==\<close>
  and raise TypeError under an ordering operator.
\<close>

fun py_cmp :: "('f, 'd) pylib \<Rightarrow> cmp_op \<Rightarrow> ('f, 'd) pyval \<Rightarrow> ('f, 'd) pyval \<Rightarrow> error + bool" where
  "py_cmp lib c (PStr a) (PStr b) = Inr (ord_cmp c a b)"
| "py_cmp lib c (PInt a) (PInt b) = Inr (ord_cmp c a b)"
| "py_cmp lib c (PFloat a) (PFloat b) = Inr (float_cmp lib c a b)"
| "py_cmp lib c (PInt a) (PFloat b) = Inr (int_float_cmp lib c a b)"
| "py_cmp lib c (PFloat a) (PInt b) = Inr (int_float_cmp lib (flip_op c) b a)"
| "py_cmp lib c (PDatetime a) (PDatetime b) = datetime_cmp lib c a b"
| "py_cmp lib c _ _ = (if c = Eq then Inr False else Inl TypeError)"

section \<open>CleanReader\<close>

text \<open>
  A file is what \<^verbatim>\<open>csv.reader(f, delimiter=';')\<close> makes of it: the list of its lines,
  each a list of fields. The first line is the header; an empty file is \<open>[]\<close> and a blank
  line is \<open>[]\<close>.
\<close>

type_synonym csv_file = "string list list"

datatype preprocessing = Strict | Ignore | Replace

definition is_ascii :: "char \<Rightarrow> bool" where
  "is_ascii c = (of_char c < (128::nat))"

text \<open>\<^verbatim>\<open>entry.encode('ascii', errors=...).decode()\<close>\<close>

definition encode_ascii :: "preprocessing \<Rightarrow> string \<Rightarrow> error + string" where
  "encode_ascii p s = (case p of
       Strict \<Rightarrow> (if list_all is_ascii s then Inr s else Inl UnicodeEncodeError)
     | Ignore \<Rightarrow> Inr (filter is_ascii s)
     | Replace \<Rightarrow> Inr (map (\<lambda>c. if is_ascii c then c else CHR ''?'') s))"

text \<open>The ASCII characters that \<^verbatim>\<open>str.strip()\<close> removes: codes 9 to 13 and 28 to 32.\<close>

definition is_space :: "char \<Rightarrow> bool" where
  "is_space c = (let n = (of_char c :: nat) in (9 \<le> n \<and> n \<le> 13) \<or> (28 \<le> n \<and> n \<le> 32))"

definition strip :: "string \<Rightarrow> string" where
  "strip s = rev (dropWhile is_space (rev (dropWhile is_space s)))"

definition lower_char :: "char \<Rightarrow> char" where
  "lower_char c = (let n = (of_char c :: nat) in if 65 \<le> n \<and> n \<le> 90 then char_of (n + 32) else c)"


definition lower :: "string \<Rightarrow> string" where
  "lower s = map lower_char s"


text \<open>
  \<^verbatim>\<open>CleanReader.preprocess_text\<close>. The argument is \<open>None\<close> when
  \<^verbatim>\<open>csv.DictReader\<close> filled a missing field with its \<^verbatim>\<open>restval\<close>; then
  \<^verbatim>\<open>entry.encode\<close> raises AttributeError.
\<close>

definition preprocess_text :: "preprocessing \<Rightarrow> string option \<Rightarrow> error + string" where
  "preprocess_text p entry = (case entry of
       None \<Rightarrow> Inl AttributeError
     | Some e \<Rightarrow> (case encode_ascii p e of Inl err \<Rightarrow> Inl err | Inr e1 \<Rightarrow> Inr (lower (strip e1))))"

text \<open>
  One step of \<^verbatim>\<open>csv.DictReader.__next__\<close> on a non-blank line:
  \<^verbatim>\<open>d = dict(zip(fieldnames, row))\<close>, then every field name beyond the row's length
  is set to \<^verbatim>\<open>restval = None\<close>. Fields beyond the header's length go under the key
  \<^verbatim>\<open>None\<close>, which no column name equals, and are left out.
\<close>

definition dictreader_row :: "string list \<Rightarrow> string list \<Rightarrow> (string, string option) dict" where
  "dictreader_row fieldnames row =
     fold (\<lambda>key d. AList.update key None d) (drop (length row) fieldnames)
       (fold (\<lambda>(key, v) d. AList.update key (Some v) d) (zip fieldnames row) [])"

record clean_reader =
  cr_file :: csv_file
  cr_cols :: "string list"
  cr_aliases :: "string list"
  cr_preprocessing :: preprocessing

text \<open>\<^verbatim>\<open>CleanReader.__init__\<close>: with a non-empty alias dictionary, every column is looked up in it.\<close>

fun lookup_all :: "('k, 'v) dict \<Rightarrow> 'k list \<Rightarrow> error + 'v list" where
  "lookup_all d [] = Inr []"
| "lookup_all d (k # ks) = (case getitem d k of Inl e \<Rightarrow> Inl e
     | Inr v \<Rightarrow> (case lookup_all d ks of Inl e \<Rightarrow> Inl e | Inr vs \<Rightarrow> Inr (v # vs)))"

definition CleanReader_init ::
  "csv_file \<Rightarrow> string list \<Rightarrow> (string, string) dict option \<Rightarrow> preprocessing \<Rightarrow> error + clean_reader" where
  "CleanReader_init file cols alias_dict p =
     (if alias_dict \<noteq> None \<and> alias_dict \<noteq> Some []
      then (case lookup_all (the alias_dict) cols of Inl e \<Rightarrow> Inl e
            | Inr als \<Rightarrow> Inr \<lparr>cr_file = file, cr_cols = cols, cr_aliases = als, cr_preprocessing = p\<rparr>)
      else Inr \<lparr>cr_file = file, cr_cols = cols, cr_aliases = cols, cr_preprocessing = p\<rparr>)"

text \<open>
  \<^verbatim>\<open>namedtuple('RowTup', aliases)\<close> raises ValueError unless every field name is an
  identifier, is not a keyword, does not start with an underscore, and occurs once.
  Identifiers are checked on ASCII.
\<close>

definition is_alpha_us :: "char \<Rightarrow> bool" where
  "is_alpha_us c = (let n = (of_char c :: nat) in (65 \<le> n \<and> n \<le> 90) \<or> (97 \<le> n \<and> n \<le> 122) \<or> n = 95)"

definition is_digit :: "char \<Rightarrow> bool" where
  "is_digit c = (let n = (of_char c :: nat) in 48 \<le> n \<and> n \<le> 57)"

definition isidentifier :: "string \<Rightarrow> bool" where
  "isidentifier s = (case s of [] \<Rightarrow> False
     | c # cs \<Rightarrow> is_alpha_us c \<and> list_all (\<lambda>x. is_alpha_us x \<or> is_digit x) cs)"

definition kwlist :: "string list" where
  "kwlist = [''False'', ''None'', ''True'', ''and'', ''as'', ''assert'', ''async'', ''await'',
     ''break'', ''class'', ''continue'', ''def'', ''del'', ''elif'', ''else'', ''except'',
     ''finally'', ''for'', ''from'', ''global'', ''if'', ''import'', ''in'', ''is'', ''lambda'',
     ''nonlocal'', ''not'', ''or'', ''pass'', ''raise'', ''return'', ''try'', ''while'', ''with'',
     ''yield'']"

definition namedtuple_ok :: "string list \<Rightarrow> bool" where
  "namedtuple_ok names =
     (list_all (\<lambda>n. isidentifier n \<and> n \<notin> set kwlist \<and> hd n \<noteq> CHR ''_'') names \<and> distinct names)"

text \<open>
  A \<^verbatim>\<open>RowTup\<close>: the field names with their values, in order. \<^verbatim>\<open>getattr(row, alias)\<close>
  is modelled for field names; any other name is an AttributeError (the attributes that every
  tuple has, such as \<^verbatim>\<open>count\<close> and \<^verbatim>\<open>index\<close>, are not modelled).
\<close>

type_synonym row_tup = "(string \<times> string) list"

definition getattr :: "row_tup \<Rightarrow> string \<Rightarrow> error + string" where
  "getattr row a = (case map_of row a of None \<Rightarrow> Inl AttributeError | Some v \<Rightarrow> Inr v)"

text \<open>
  The generator \<^verbatim>\<open>(self.preprocess_text(row[col]) for col in self.cols)\<close>, consumed
  from the left by \<^verbatim>\<open>RowTup(*row_data)\<close>: the first failure is the one raised.
\<close>

fun row_data :: "preprocessing \<Rightarrow> (string, string option) dict \<Rightarrow> string list \<Rightarrow> error + string list" where
  "row_data p d [] = Inr []"
| "row_data p d (col # cols) = (case getitem d col of Inl e \<Rightarrow> Inl e
     | Inr entry \<Rightarrow> (case preprocess_text p entry of Inl e \<Rightarrow> Inl e
         | Inr v \<Rightarrow> (case row_data p d cols of Inl e \<Rightarrow> Inl e | Inr vs \<Rightarrow> Inr (v # vs))))"

definition make_row :: "clean_reader \<Rightarrow> string list \<Rightarrow> string list \<Rightarrow> error + row_tup" where
  "make_row cr fieldnames row =
     (case row_data (cr_preprocessing cr) (dictreader_row fieldnames row) (cr_cols cr) of
        Inl e \<Rightarrow> Inl e
      | Inr vs \<Rightarrow> Inr (zip (cr_aliases cr) vs))"

text \<open>
  A generator ends when an exception leaves it: of the results of its steps, it yields those
  up to the first exception, and that exception last.
\<close>

fun until_error :: "(error + 'a) list \<Rightarrow> (error + 'a) list" where
  "until_error [] = []"
| "until_error (Inl e # rest) = [Inl e]"
| "until_error (Inr x # rest) = Inr x # until_error rest"

text \<open>
  \<^verbatim>\<open>CleanReader.__iter__\<close> is a generator. Its model is the list of what each
  \<^verbatim>\<open>next()\<close> gives, in file order: a row, or the exception raised while building it,
  after which nothing more is read. When \<^verbatim>\<open>namedtuple\<close> rejects the field names, the
  first \<^verbatim>\<open>next()\<close> enters the debugger. \<^verbatim>\<open>csv.DictReader\<close> takes the first line as
  field names and skips blank lines.
\<close>

definition CleanReader_iter :: "clean_reader \<Rightarrow> (error + row_tup) list" where
  "CleanReader_iter cr =
     (if \<not> namedtuple_ok (cr_aliases cr) then [Inl DebuggerEntered]
      else (case cr_file cr of [] \<Rightarrow> []
            | fieldnames # lines \<Rightarrow>
                until_error (map (make_row cr fieldnames) (filter (\<lambda>r. r \<noteq> []) lines))))"

section \<open>ExtendedCounter and MultiFileCounter\<close>

text \<open>
  A \<^verbatim>\<open>Counter\<close> is a dictionary from observed values to Python integers; reading a
  missing key gives 0 without inserting it.
\<close>

type_synonym counter = "(string, int) dict"

definition counter_get :: "counter \<Rightarrow> string \<Rightarrow> int" where
  "counter_get c k = (case map_of c k of None \<Rightarrow> 0 | Some n \<Rightarrow> n)"

text \<open>\<^verbatim>\<open>c[k] += 1\<close>\<close>

definition counter_incr :: "counter \<Rightarrow> string \<Rightarrow> counter" where
  "counter_incr c k = AList.update k (counter_get c k + 1) c"

record ('f, 'd) constraint =
  con_alias :: string
  con_cmp :: cmp_op
  con_val :: "('f, 'd) pyval"

record ('f, 'd) mfc =
  files :: "csv_file list"
  colname_list_dict :: "(string, string list) dict option"
  counters :: "(string, counter) dict"
  constraints :: "('f, 'd) constraint list"
  files_parsed :: nat

definition MultiFileCounter_init ::
  "csv_file list \<Rightarrow> (string, string list) dict option \<Rightarrow> ('f, 'd) mfc" where
  "MultiFileCounter_init fs cld =
     \<lparr>files = fs, colname_list_dict = cld, counters = [], constraints = [], files_parsed = 0\<rparr>"

definition cmp_dict :: "(string, cmp_op) dict" where
  "cmp_dict = [(''=='', Eq), (''<='', Le), (''>='', Ge), (''<'', Lt), (''>'', Gt)]"

text \<open>The property \<^verbatim>\<open>aliases\<close>: \<^verbatim>\<open>self.colname_list_dict.keys()\<close>.\<close>

definition aliases :: "('f, 'd) mfc \<Rightarrow> error + string list" where
  "aliases s = (case colname_list_dict s of None \<Rightarrow> Inl AttributeError | Some d \<Rightarrow> Inr (keys d))"

text \<open>Truth value of \<^verbatim>\<open>self.colname_list_dict\<close>: neither \<^verbatim>\<open>None\<close> nor empty.\<close>

definition truthy :: "('k, 'v) dict option \<Rightarrow> bool" where
  "truthy d = (d \<noteq> None \<and> d \<noteq> Some [])"

definition add_alias :: "('f, 'd) mfc \<Rightarrow> string \<Rightarrow> string \<Rightarrow> ('f, 'd) mfc" where
  "add_alias s alias colname =
     (let d = (if \<not> truthy (colname_list_dict s) then [] else the (colname_list_dict s))
      in (case map_of d alias of
            Some l \<Rightarrow> s\<lparr>colname_list_dict := Some (AList.update alias (l @ [colname]) d)\<rparr>
          | None \<Rightarrow> s\<lparr>colname_list_dict := Some (AList.update alias [colname] d)\<rparr>))"

definition add_constraint ::
  "('f, 'd) mfc \<Rightarrow> string \<Rightarrow> string \<Rightarrow> ('f, 'd) pyval \<Rightarrow> error + ('f, 'd) mfc" where
  "add_constraint s alias cmp v =
     (case getitem cmp_dict cmp of Inl e \<Rightarrow> Inl e
      | Inr cmp_op \<Rightarrow>
          Inr (s\<lparr>constraints := constraints s @ [\<lparr>con_alias = alias, con_cmp = cmp_op, con_val = v\<rparr>]\<rparr>))"

definition add_counter :: "('f, 'd) mfc \<Rightarrow> string \<Rightarrow> ('f, 'd) mfc" where
  "add_counter s counter_alias = s\<lparr>counters := AList.update counter_alias [] (counters s)\<rparr>"

subsection \<open>constraints_satisfied\<close>

definition isinstance_float :: "('f, 'd) pyval \<Rightarrow> bool" where
  "isinstance_float v = (case v of PFloat _ \<Rightarrow> True | _ \<Rightarrow> False)"

definition isinstance_int :: "('f, 'd) pyval \<Rightarrow> bool" where
  "isinstance_int v = (case v of PInt _ \<Rightarrow> True | _ \<Rightarrow> False)"

definition isinstance_datetime :: "('f, 'd) pyval \<Rightarrow> bool" where
  "isinstance_datetime v = (case v of PDatetime _ \<Rightarrow> True | _ \<Rightarrow> False)"

text \<open>
  The body of the loop over \<^verbatim>\<open>self.constraints\<close>. The row entry is a \<^verbatim>\<open>str\<close>, so
  the second test of the first condition, \<^verbatim>\<open>isinstance(entry, int)\<close>, is taken on
  \<open>PStr entry\<close>.
\<close>

definition eval_constraint ::
  "('f, 'd) pylib \<Rightarrow> row_tup \<Rightarrow> ('f, 'd) constraint \<Rightarrow> error + bool" where
  "eval_constraint lib row con =
     (case getattr row (con_alias con) of Inl e \<Rightarrow> Inl e
      | Inr entry \<Rightarrow>
          (if isinstance_float (con_val con) \<or> isinstance_int (PStr entry :: ('f, 'd) pyval)
           then (case float_of_str lib entry of None \<Rightarrow> Inl ValueError
                 | Some x \<Rightarrow> py_cmp lib (con_cmp con) (PFloat x) (con_val con))
           else if isinstance_datetime (con_val con)
           then (case parser_parse lib entry of None \<Rightarrow> Inl ValueError
                 | Some x \<Rightarrow> py_cmp lib (con_cmp con) (PDatetime x) (con_val con))
           else py_cmp lib (con_cmp con) (PStr entry) (con_val con)))"

fun constraint_loop ::
  "('f, 'd) pylib \<Rightarrow> row_tup \<Rightarrow> ('f, 'd) constraint list \<Rightarrow> bool list \<Rightarrow> error + bool list" where
  "constraint_loop lib row [] bools = Inr bools"
| "constraint_loop lib row (con # cons) bools =
     (case eval_constraint lib row con of Inl e \<Rightarrow> Inl e
      | Inr b \<Rightarrow> constraint_loop lib row cons (bools @ [b]))"

definition constraints_satisfied :: "('f, 'd) pylib \<Rightarrow> ('f, 'd) mfc \<Rightarrow> row_tup \<Rightarrow> error + bool" where
  "constraints_satisfied lib s row =
     (if constraints s = [] then Inr True
      else (case constraint_loop lib row (constraints s) [] of Inl e \<Rightarrow> Inl e
            | Inr bools \<Rightarrow> Inr (list_all (\<lambda>b. b) bools)))"

subsection \<open>alias_dict and colname_dict\<close>

text \<open>
  The loop \<^verbatim>\<open>for alias in self.aliases\<close> of \<^verbatim>\<open>alias_dict\<close>.
  \<^verbatim>\<open>next(col for col in header if col in colname_list)\<close> raises StopIteration when
  no header name is a candidate.
\<close>

fun alias_loop ::
  "(string, string list) dict \<Rightarrow> string list \<Rightarrow> string list \<Rightarrow> (string, string) dict
     \<Rightarrow> error + (string, string) dict" where
  "alias_loop reg header [] ad = Inr ad"
| "alias_loop reg header (alias # rest) ad =
     (case getitem reg alias of Inl e \<Rightarrow> Inl e
      | Inr colname_list \<Rightarrow>
          (case find (\<lambda>col. col \<in> set colname_list) header of None \<Rightarrow> Inl StopIteration
           | Some colname \<Rightarrow> alias_loop reg header rest (AList.update colname alias ad)))"

text \<open>\<^verbatim>\<open>header = next(reader)\<close> raises StopIteration on an empty file.\<close>

definition alias_dict :: "('f, 'd) mfc \<Rightarrow> csv_file \<Rightarrow> error + (string, string) dict" where
  "alias_dict s file =
     (case file of [] \<Rightarrow> Inl StopIteration
      | header # _ \<Rightarrow>
          (if truthy (colname_list_dict s)
           then (case aliases s of Inl e \<Rightarrow> Inl e
                 | Inr als \<Rightarrow> alias_loop (the (colname_list_dict s)) header als [])
           else (case aliases s of Inl e \<Rightarrow> Inl e
                 | Inr als \<Rightarrow> Inr (fold (\<lambda>alias d. AList.update alias alias d) als []))))"

definition colname_dict :: "('f, 'd) mfc \<Rightarrow> csv_file \<Rightarrow> error + (string, string) dict" where
  "colname_dict s file =
     (case alias_dict s file of Inl e \<Rightarrow> Inl e
      | Inr ad \<Rightarrow> Inr (fold (\<lambda>(colname, alias) d. AList.update alias colname d) ad []))"

text \<open>
  The spec's words for schema resolution, to be compared with \<^verbatim>\<open>alias_dict\<close>: \<open>c\<close> is the
  first header name, scanning the header in file order, that occurs in the candidate list.
\<close>

definition first_candidate :: "string list \<Rightarrow> string list \<Rightarrow> string \<Rightarrow> bool" where
  "first_candidate header colname_list c \<longleftrightarrow>
     (\<exists>i \<in> {..<length header}. header ! i = c \<and> c \<in> set colname_list \<and>
        (\<forall>j \<in> {..<i}. header ! j \<notin> set colname_list))"

subsection \<open>Iteration and count\<close>

text \<open>
  \<^verbatim>\<open>for alias in self.counters: self._counters[alias][getattr(row_tup, alias)] += 1\<close>.
  An exception leaves the counters already incremented for this row as they are.
\<close>

fun counter_loop ::
  "string list \<Rightarrow> row_tup \<Rightarrow> (string, counter) dict \<Rightarrow> error option \<times> (string, counter) dict" where
  "counter_loop [] row cs = (None, cs)"
| "counter_loop (alias # rest) row cs =
     (case getitem cs alias of Inl e \<Rightarrow> (Some e, cs)
      | Inr c \<Rightarrow>
          (case getattr row alias of Inl e \<Rightarrow> (Some e, cs)
           | Inr v \<Rightarrow> counter_loop rest row (AList.update alias (counter_incr c v) cs)))"

text \<open>
  \<^verbatim>\<open>for row_tup in clean_reader\<close>: the rows are pulled one at a time, so an exception
  at one row comes after the rows before it have been counted.
\<close>

fun row_loop ::
  "('f, 'd) pylib \<Rightarrow> ('f, 'd) mfc \<Rightarrow> (error + row_tup) list \<Rightarrow> error option \<times> ('f, 'd) mfc" where
  "row_loop lib s [] = (None, s)"
| "row_loop lib s (Inl e # rest) = (Some e, s)"
| "row_loop lib s (Inr row_tup # rest) =
     (case constraints_satisfied lib s row_tup of Inl e \<Rightarrow> (Some e, s)
      | Inr ok \<Rightarrow>
          (if ok
           then (case counter_loop (keys (counters s)) row_tup (counters s) of
                   (Some e, cs) \<Rightarrow> (Some e, s\<lparr>counters := cs\<rparr>)
                 | (None, cs) \<Rightarrow> row_loop lib (s\<lparr>counters := cs\<rparr>) rest)
           else row_loop lib s rest))"

text \<open>
  The body of \<^verbatim>\<open>for file in self.files\<close> in \<^verbatim>\<open>MultiFileCounter.__iter__\<close>:
  first the four statements that lead to the \<^verbatim>\<open>CleanReader\<close> of the file, then the
  loop over its rows.
\<close>

definition reader_for :: "('f, 'd) mfc \<Rightarrow> csv_file \<Rightarrow> error + clean_reader" where
  "reader_for s file =
     (case alias_dict s file of Inl e \<Rightarrow> Inl e
      | Inr ad \<Rightarrow>
     (case colname_dict s file of Inl e \<Rightarrow> Inl e
      | Inr cd \<Rightarrow>
     (case aliases s of Inl e \<Rightarrow> Inl e
      | Inr als \<Rightarrow>
     (case lookup_all cd als of Inl e \<Rightarrow> Inl e
      | Inr colnames \<Rightarrow> CleanReader_init file colnames (Some ad) Strict))))"

definition iter_file ::
  "('f, 'd) pylib \<Rightarrow> ('f, 'd) mfc \<Rightarrow> csv_file \<Rightarrow> error option \<times> ('f, 'd) mfc" where
  "iter_file lib s file =
     (case reader_for s file of Inl e \<Rightarrow> (Some e, s)
      | Inr clean_reader \<Rightarrow>
     (case row_loop lib s (CleanReader_iter clean_reader) of
        (Some e, s') \<Rightarrow> (Some e, s')
      | (None, s') \<Rightarrow> (None, s'\<lparr>files_parsed := files_parsed s' + 1\<rparr>)))"

text \<open>
  \<^verbatim>\<open>__iter__\<close> is a generator: a StopIteration raised in its body leaves it as a
  RuntimeError (PEP 479, the behaviour of Python 3.7 and later).
\<close>

definition generator_raise :: "error \<Rightarrow> error" where
  "generator_raise e = (if e = StopIteration then RuntimeError else e)"

fun file_loop ::
  "('f, 'd) pylib \<Rightarrow> ('f, 'd) mfc \<Rightarrow> csv_file list \<Rightarrow> error option \<times> ('f, 'd) mfc" where
  "file_loop lib s [] = (None, s)"
| "file_loop lib s (file # rest) =
     (case iter_file lib s file of
        (Some e, s') \<Rightarrow> (Some (generator_raise e), s')
      | (None, s') \<Rightarrow> file_loop lib s' rest)"

text \<open>
  \<^verbatim>\<open>count\<close> drives the generator to its end. The result is the exception that ended
  the run, if any, with the state the object is left in.
\<close>

definition count :: "('f, 'd) pylib \<Rightarrow> ('f, 'd) mfc \<Rightarrow> error option \<times> ('f, 'd) mfc" where
  "count lib s = file_loop lib s (files s)"

subsection \<open>Percentages and the report body\<close>



text \<open>\<^verbatim>\<open>str(n)\<close> for a Python integer.\<close>

definition digit_char :: "nat \<Rightarrow> char" where
  "digit_char d = char_of (48 + d)"

function str_nat :: "nat \<Rightarrow> string" where
  "str_nat n = (if n < 10 then [digit_char n] else str_nat (n div 10) @ [digit_char (n mod 10)])"
  by pat_completeness auto
termination
  by (relation "measure (\<lambda>n. n)") auto







subsection \<open>A library instance for examples\<close>

text \<open>
  An instance of the library interface used to evaluate examples. A float is an exact
  fraction, given as numerator and denominator, and \<open>format_1f\<close> rounds it to one decimal
  place, half to even: on the values of the examples below (such as \<open>1/2\<close> and \<open>3/5\<close>
  times 100) that is what Python prints. The examples parse no float and no datetime, and
  no string is taken to parse as either.
\<close>

definition tenths :: "int \<times> int \<Rightarrow> int" where
  "tenths x = (let a = (if snd x < 0 then - fst x else fst x) * 10; b = \<bar>snd x\<bar>;
                   q = a div b; r = a mod b
               in if 2 * r < b then q else if b < 2 * r then q + 1 else if even q then q else q + 1)"

definition example_lib :: "(int \<times> int, unit) pylib" where
  "example_lib = \<lparr>float_of_str = (\<lambda>_. None), parser_parse = (\<lambda>_. None),
     float_cmp = (\<lambda>c x y. ord_cmp c (fst x * snd y * sgn (snd x) * sgn (snd y))
                                     (fst y * snd x * sgn (snd x) * sgn (snd y))),
     int_float_cmp = (\<lambda>c i y. ord_cmp c (i * snd y * sgn (snd y) * sgn (snd y)) (fst y * sgn (snd y))),
     datetime_cmp = (\<lambda>c _ _. Inr (ord_cmp c () ())),
     int_truediv = (\<lambda>a b. Inr (a, b)),
     int_mul_float = (\<lambda>k x. (k * fst x, snd x)),
     format_1f = (\<lambda>x. (if tenths x < 0 then ''-'' else []) @ str_nat (nat \<bar>tenths x\<bar> div 10) @ ''.'' @
                        str_nat (nat \<bar>tenths x\<bar> mod 10))\<rparr>"

section \<open>Properties\<close>

lemma constraint_loop_Inr:
  "constraint_loop lib row cons bools = Inr bs \<Longrightarrow>
     (\<forall>c \<in> set cons. \<exists>b. eval_constraint lib row c = Inr b) \<and>
     (list_all (\<lambda>b. b) bs \<longleftrightarrow>
        list_all (\<lambda>b. b) bools \<and> (\<forall>c \<in> set cons. eval_constraint lib row c = Inr True))"
proof (induction cons arbitrary: bools)
  case Nil
  then show ?case by simp
next
  case (Cons con cons)
  from Cons.prems obtain b where b: "eval_constraint lib row con = Inr b"
    and rest: "constraint_loop lib row cons (bools @ [b]) = Inr bs"
    by (auto split: sum.splits)
  from Cons.IH [OF rest] b show ?case by auto
qed

lemma constraint_loop_all:
  "\<forall>c \<in> set cons. eval_constraint lib row c = Inr True \<Longrightarrow>
     \<exists>bs. constraint_loop lib row cons bools = Inr bs"
  by (induction cons arbitrary: bools) auto

text \<open>
  The loop of \<open>constraints_satisfied\<close> is a conjunction over the list: the result is
  \<^verbatim>\<open>True\<close> exactly when the loop body gives \<^verbatim>\<open>True\<close> at every constraint.
\<close>

lemma constraints_satisfied_all_True:
  "(constraints_satisfied lib s row = Inr True \<longleftrightarrow>
      (\<forall>c \<in> set (constraints s). eval_constraint lib row c = Inr True)) \<and>
   (constraints s = [] \<longrightarrow> constraints_satisfied lib s row = Inr True)"
proof -
  have "constraints_satisfied lib s row = Inr True" if "constraints s = []"
    using that by (simp add: constraints_satisfied_def)
  moreover have "constraints_satisfied lib s row = Inr True \<longleftrightarrow>
      (\<forall>c \<in> set (constraints s). eval_constraint lib row c = Inr True)"
  proof (cases "constraints s = []")
    case True
    then show ?thesis by (simp add: constraints_satisfied_def)
  next
    case False
    show ?thesis
    proof
      assume "constraints_satisfied lib s row = Inr True"
      with False obtain bs where bs: "constraint_loop lib row (constraints s) [] = Inr bs"
        and "list_all (\<lambda>b. b) bs"
        by (auto simp: constraints_satisfied_def split: sum.splits)
      with constraint_loop_Inr [OF bs]
      show "\<forall>c \<in> set (constraints s). eval_constraint lib row c = Inr True" by simp
    next
      assume all: "\<forall>c \<in> set (constraints s). eval_constraint lib row c = Inr True"
      from constraint_loop_all [OF all] obtain bs
        where bs: "constraint_loop lib row (constraints s) [] = Inr bs" by blast
      with constraint_loop_Inr [OF bs] all have "list_all (\<lambda>b. b) bs" by simp
      with bs False show "constraints_satisfied lib s row = Inr True"
        by (simp add: constraints_satisfied_def)
    qed
  qed
  ultimately show ?thesis by blast
qed

text \<open>
  C1, at the constraint \<^verbatim>\<open>('latitude', '==', 40)\<close> and a record whose latitude is
  \<^verbatim>\<open>'40'\<close>. The constraint holds for the record, yet \<open>constraints_satisfied\<close> returns
  \<^verbatim>\<open>False\<close>: the entry is not converted to a number, because the loop body tests
  \<^verbatim>\<open>isinstance(entry, int)\<close> where it means \<^verbatim>\<open>isinstance(con.val, int)\<close>, and the
  string \<^verbatim>\<open>'40'\<close> is unequal to the integer 40.
\<close>

theorem C1_int_equality_rejected:
  "constraints_satisfied lib
      \<lparr>files = [], colname_list_dict = None, counters = [],
       constraints = [\<lparr>con_alias = ''latitude'', con_cmp = Eq, con_val = PInt 40\<rparr>],
       files_parsed = 0\<rparr> [(''latitude'', ''40'')] = Inr False"
  by (simp add: constraints_satisfied_def eval_constraint_def getattr_def isinstance_float_def
      isinstance_int_def isinstance_datetime_def)

text \<open>
  C2, at a constraint whose comparison value is the integer 40 (as in the docstring of
  \<^verbatim>\<open>add_constraint\<close>: \<^verbatim>\<open>mfc.add_constraint('latitude', '<', 40)\<close>). The entry
  \<^verbatim>\<open>'35'\<close> is not converted to a number: the condition tests
  \<^verbatim>\<open>isinstance(entry, int)\<close>, not \<^verbatim>\<open>isinstance(con.val, int)\<close>, so the
  string is compared with the integer and \<^verbatim>\<open><\<close> raises TypeError.
\<close>

theorem C2_int_value_not_coerced:
  "constraints_satisfied lib
      \<lparr>files = [], colname_list_dict = None, counters = [],
       constraints = [\<lparr>con_alias = ''latitude'', con_cmp = Lt, con_val = PInt 40\<rparr>],
       files_parsed = 0\<rparr> [(''latitude'', ''35'')] = Inl TypeError"
  by (simp add: constraints_satisfied_def eval_constraint_def getattr_def isinstance_float_def
      isinstance_int_def isinstance_datetime_def)

text \<open>
  C8, at a counter created without a registry. With \<^verbatim>\<open>colname_list_dict = None\<close>,
  \<^verbatim>\<open>alias_dict\<close> raises AttributeError (\<^verbatim>\<open>self.aliases\<close> calls
  \<^verbatim>\<open>None.keys()\<close>); with an empty registry it returns the empty dictionary, whatever
  counters and constraints were added, so no alias is mapped to a column.
\<close>

theorem C8_unset_registry_no_identity:
  "alias_dict (add_counter (MultiFileCounter_init [[[''STATUS''], [''certified'']]] None) ''STATUS'')
      [[''STATUS''], [''certified'']] = Inl AttributeError \<and>
   alias_dict (add_counter (MultiFileCounter_init [[[''STATUS''], [''certified'']]] (Some [])) ''STATUS'')
      [[''STATUS''], [''certified'']] = Inr []"
  by (simp add: alias_dict_def MultiFileCounter_init_def add_counter_def truthy_def aliases_def
      keys_def)

text \<open>
  C10. After \<^verbatim>\<open>add_counter(alias)\<close> the counter registered at \<open>alias\<close> is empty,
  whatever was registered there before: every count it held is gone.
\<close>

theorem C10_add_counter_fresh:
  "getitem (counters (add_counter s counter_alias)) counter_alias = Inr [] \<and>
   (\<forall>k. counter_get (the (map_of (counters (add_counter s counter_alias)) counter_alias)) k = 0)"
  by (simp add: add_counter_def getitem_def update_conv' counter_get_def)

subsection \<open>Schema resolution\<close>

lemma first_candidate_find:
  "first_candidate header cl c \<longleftrightarrow> find (\<lambda>col. col \<in> set cl) header = Some c"
  by (auto simp: first_candidate_def find_Some_iff)

lemma alias_loop_selects:
  "alias_loop reg header (map fst ps) ad0 = Inr ad \<Longrightarrow>
   \<forall>p \<in> set ps. map_of reg (fst p) = Some (snd p) \<Longrightarrow>
   \<forall>p \<in> set ps. \<exists>c. first_candidate header (snd p) c"
proof (induction ps arbitrary: ad0)
  case Nil
  then show ?case by simp
next
  case (Cons p ps)
  from Cons.prems obtain c' where c': "find (\<lambda>col. col \<in> set (snd p)) header = Some c'"
    and rest: "alias_loop reg header (map fst ps) (AList.update c' (fst p) ad0) = Inr ad"
    by (auto simp: getitem_def split: option.splits)
  from Cons.prems(2) have "\<forall>p \<in> set ps. map_of reg (fst p) = Some (snd p)" by simp
  from Cons.IH [OF rest this] c' show ?case by (auto simp: first_candidate_find)
qed

lemma alias_loop_last:
  "alias_loop reg header (map fst ps) ad0 = Inr ad \<Longrightarrow>
   \<forall>p \<in> set ps. map_of reg (fst p) = Some (snd p) \<Longrightarrow>
   map_of ad c =
     (if filter (\<lambda>p. first_candidate header (snd p) c) ps = [] then map_of ad0 c
      else Some (fst (last (filter (\<lambda>p. first_candidate header (snd p) c) ps))))"
proof (induction ps arbitrary: ad0)
  case Nil
  then show ?case by simp
next
  case (Cons p ps)
  from Cons.prems obtain c' where c': "find (\<lambda>col. col \<in> set (snd p)) header = Some c'"
    and rest: "alias_loop reg header (map fst ps) (AList.update c' (fst p) ad0) = Inr ad"
    by (auto simp: getitem_def split: option.splits)
  from Cons.prems(2) have "\<forall>p \<in> set ps. map_of reg (fst p) = Some (snd p)" by simp
  from Cons.IH [OF rest this] c' show ?case
    by (auto simp: first_candidate_find update_conv')
qed

lemma filter_last_split:
  "filter P ys \<noteq> [] \<Longrightarrow>
     \<exists>pre post. ys = pre @ last (filter P ys) # post \<and> P (last (filter P ys)) \<and>
       (\<forall>y \<in> set post. \<not> P y)"
proof (induction ys rule: rev_induct)
  case Nil
  then show ?case by simp
next
  case (snoc y ys)
  show ?case
  proof (cases "P y")
    case True
    then have "ys @ [y] = ys @ last (filter P (ys @ [y])) # [] \<and> P (last (filter P (ys @ [y]))) \<and>
        (\<forall>y \<in> set []. \<not> P y)"
      by simp
    then show ?thesis by blast
  next
    case False
    define l where "l = last (filter P ys)"
    from False snoc.prems have "filter P ys \<noteq> []" by simp
    from snoc.IH [OF this] obtain pre post
      where eq: "ys = pre @ l # post" and l: "P l" and post: "\<forall>y \<in> set post. \<not> P y"
      unfolding l_def by blast
    from False have last: "last (filter P (ys @ [y])) = l" by (simp add: l_def)
    from eq l post False
    have "ys @ [y] = pre @ l # (post @ [y]) \<and> P l \<and> (\<forall>z \<in> set (post @ [y]). \<not> P z)"
      by simp
    then show ?thesis unfolding last by blast
  qed
qed

text \<open>
  C7, as the code has it. The dictionary built by \<^verbatim>\<open>alias_dict\<close> is keyed by header name.
  When the resolution succeeds, every alias of the registry has a first header name, in
  file order, among its candidates, and the dictionary sends a header name to an alias
  exactly when it is the first candidate of that alias in the header and of no alias later
  in the registry: among the aliases that select one header name the last in registry order
  is kept. The result depends on the header and the registry only.
\<close>

theorem C7_alias_dict_resolution:
  fixes s :: "('f, 'd) mfc"
  assumes reg: "colname_list_dict s = Some reg" and dist: "distinct (keys reg)"
    and ok: "alias_dict s (header # rows) = Inr ad"
  shows "(\<forall>(alias, cl) \<in> set reg. \<exists>c. first_candidate header cl c) \<and>
         (\<forall>c alias. map_of ad c = Some alias \<longleftrightarrow>
            (\<exists>pre cl post. reg = pre @ (alias, cl) # post \<and> first_candidate header cl c \<and>
               (\<forall>(a', cl') \<in> set post. \<not> first_candidate header cl' c))) \<and>
         (\<forall>(s' :: ('f, 'd) mfc) rows'. colname_list_dict s' = colname_list_dict s \<longrightarrow>
            alias_dict s' (header # rows') = alias_dict s (header # rows))"
proof -
  from dist have look: "\<forall>p \<in> set reg. map_of reg (fst p) = Some (snd p)"
    by (auto simp: keys_def)
  from ok reg have loop: "alias_loop reg header (map fst reg) [] = Inr ad"
    by (cases "reg = []") (auto simp: alias_dict_def truthy_def aliases_def keys_def)
  have sel: "\<forall>(alias, cl) \<in> set reg. \<exists>c. first_candidate header cl c"
    using alias_loop_selects [OF loop look] by force
  have kept: "map_of ad c = Some al \<longleftrightarrow>
      (\<exists>pre cl post. reg = pre @ (al, cl) # post \<and> first_candidate header cl c \<and>
         (\<forall>(a', cl') \<in> set post. \<not> first_candidate header cl' c))" for c al
  proof
    let ?Q = "\<lambda>p :: string \<times> string list. first_candidate header (snd p) c"
    assume m: "map_of ad c = Some al"
    with alias_loop_last [OF loop look, of c]
    have ne: "filter ?Q reg \<noteq> []" and al: "fst (last (filter ?Q reg)) = al"
      by (auto split: if_splits)
    define p where "p = last (filter ?Q reg)"
    from filter_last_split [OF ne] obtain pre post
      where eq: "reg = pre @ p # post" and q: "?Q p" and post: "\<forall>y \<in> set post. \<not> ?Q y"
      unfolding p_def by blast
    from al have "p = (al, snd p)" by (simp add: p_def prod_eq_iff)
    with eq q post
    have "reg = pre @ (al, snd p) # post \<and> first_candidate header (snd p) c \<and>
        (\<forall>(a', cl') \<in> set post. \<not> first_candidate header cl' c)"
      by auto
    then show "\<exists>pre cl post. reg = pre @ (al, cl) # post \<and> first_candidate header cl c \<and>
        (\<forall>(a', cl') \<in> set post. \<not> first_candidate header cl' c)"
      by blast
  next
    let ?Q = "\<lambda>p :: string \<times> string list. first_candidate header (snd p) c"
    assume "\<exists>pre cl post. reg = pre @ (al, cl) # post \<and> first_candidate header cl c \<and>
        (\<forall>(a', cl') \<in> set post. \<not> first_candidate header cl' c)"
    then obtain pre cl post where eq: "reg = pre @ (al, cl) # post"
      and q: "first_candidate header cl c"
      and post: "\<forall>(a', cl') \<in> set post. \<not> first_candidate header cl' c"
      by blast
    from post have "filter ?Q post = []" by (auto simp: filter_empty_conv)
    with eq q have "filter ?Q reg = filter ?Q pre @ [(al, cl)]" by simp
    with alias_loop_last [OF loop look, of c] show "map_of ad c = Some al" by simp
  qed
  have pure: "\<forall>(s' :: ('f, 'd) mfc) rows'. colname_list_dict s' = colname_list_dict s \<longrightarrow>
      alias_dict s' (header # rows') = alias_dict s (header # rows)"
  proof (intro allI impI)
    fix s' :: "('f, 'd) mfc" and rows'
    assume eq: "colname_list_dict s' = colname_list_dict s"
    show "alias_dict s' (header # rows') = alias_dict s (header # rows)"
      unfolding alias_dict_def aliases_def eq by simp
  qed
  from sel kept pure show ?thesis by blast
qed

theorem C7_alias_dict_resolution_witness:
  "alias_dict (MultiFileCounter_init [] (Some [(''status'', [''STATUS'', ''CASE_STATUS'']),
        (''state'', [''CASE_STATUS'']), (''occupation'', [''SOC_NAME'', ''LCA_CASE_SOC_NAME''])])
        :: (unit, unit) mfc)
      [[''CASE_NUMBER'', ''CASE_STATUS'', ''SOC_NAME'']] =
      Inr [(''CASE_STATUS'', ''state''), (''SOC_NAME'', ''occupation'')] \<and>
   first_candidate [''CASE_NUMBER'', ''CASE_STATUS'', ''SOC_NAME''] [''STATUS'', ''CASE_STATUS'']
     ''CASE_STATUS'' \<and>
   first_candidate [''CASE_NUMBER'', ''CASE_STATUS'', ''SOC_NAME''] [''CASE_STATUS''] ''CASE_STATUS'' \<and>
   map_of [(''CASE_STATUS'', ''state''), (''SOC_NAME'', ''occupation'')] ''CASE_STATUS'' = Some ''state''"
proof -
  let ?reg = "[(''status'', [''STATUS'', ''CASE_STATUS'']), (''state'', [''CASE_STATUS'']),
        (''occupation'', [''SOC_NAME'', ''LCA_CASE_SOC_NAME''])]"
  let ?s = "MultiFileCounter_init [] (Some ?reg) :: (unit, unit) mfc"
  let ?h = "[''CASE_NUMBER'', ''CASE_STATUS'', ''SOC_NAME'']"
  let ?ad = "[(''CASE_STATUS'', ''state''), (''SOC_NAME'', ''occupation'')]"
  have reg: "colname_list_dict ?s = Some ?reg" by (simp add: MultiFileCounter_init_def)
  have dist: "distinct (keys ?reg)" by (simp add: keys_def)
  have ok: "alias_dict ?s (?h # []) = Inr ?ad"
    by (simp add: alias_dict_def MultiFileCounter_init_def truthy_def aliases_def keys_def getitem_def)
  have fc1: "first_candidate ?h [''STATUS'', ''CASE_STATUS''] ''CASE_STATUS''"
    by (simp add: first_candidate_find)
  have fc2: "first_candidate ?h [''CASE_STATUS''] ''CASE_STATUS''"
    by (simp add: first_candidate_find)
  have later: "\<not> first_candidate ?h [''SOC_NAME'', ''LCA_CASE_SOC_NAME''] ''CASE_STATUS''"
    by (simp add: first_candidate_find)
  from fc2 later
  have "?reg = [(''status'', [''STATUS'', ''CASE_STATUS''])] @ (''state'', [''CASE_STATUS'']) #
        [(''occupation'', [''SOC_NAME'', ''LCA_CASE_SOC_NAME''])] \<and>
      first_candidate ?h [''CASE_STATUS''] ''CASE_STATUS'' \<and>
      (\<forall>(a', cl') \<in> set [(''occupation'', [''SOC_NAME'', ''LCA_CASE_SOC_NAME''])].
         \<not> first_candidate ?h cl' ''CASE_STATUS'')"
    by simp
  then have ex: "\<exists>pre cl post. ?reg = pre @ (''state'', cl) # post \<and>
      first_candidate ?h cl ''CASE_STATUS'' \<and>
      (\<forall>(a', cl') \<in> set post. \<not> first_candidate ?h cl' ''CASE_STATUS'')"
    by blast
  note res = C7_alias_dict_resolution [OF reg dist ok]
  from res [THEN conjunct2, THEN conjunct1, rule_format, of "''CASE_STATUS''" "''state''"] ex
  have kept: "map_of ?ad ''CASE_STATUS'' = Some ''state''" by (rule iffD2)
  show ?thesis by (intro conjI ok [simplified] fc1 fc2 kept)
qed

text \<open>
  Two aliases whose candidate lists select the same column: the dictionary keeps the later
  alias only, and the first alias is mapped to no header name.
\<close>

theorem C7_shared_column_counterexample:
  "alias_dict (MultiFileCounter_init [[[''X''], [''v'']]] (Some [(''a'', [''X'']), (''b'', [''X''])])
        :: (unit, unit) mfc)
      [[''X''], [''v'']] = Inr [(''X'', ''b'')]"
  by (simp add: alias_dict_def MultiFileCounter_init_def truthy_def aliases_def keys_def getitem_def)

subsection \<open>Rows whose column count differs from the header's\<close>

lemma map_of_fold_update_None:
  "map_of (fold (\<lambda>key d. AList.update key None d) ks d) k =
     (if k \<in> set ks then Some None else map_of d k)"
  by (induction ks arbitrary: d) (auto simp: update_conv')

lemma map_of_fold_update_Some:
  "map_of (fold (\<lambda>(key, v) d. AList.update key (Some v) d) kvs d) k =
     (case map_of (rev kvs) k of Some v \<Rightarrow> Some (Some v) | None \<Rightarrow> map_of d k)"
  by (induction kvs arbitrary: d)
    (auto simp: update_conv' map_add_def split: option.splits prod.splits)

lemma zip_take_lengths: "zip (take (length ys) xs) (take (length xs) ys) = zip xs ys"
proof (induction xs arbitrary: ys)
  case Nil
  then show ?case by simp
next
  case (Cons x xs)
  then show ?case by (cases ys) simp_all
qed

lemma dictreader_row_beyond:
  "col \<in> set (drop (length row) fieldnames) \<Longrightarrow> map_of (dictreader_row fieldnames row) col = Some None"
  by (simp add: dictreader_row_def map_of_fold_update_None)

lemma dictreader_row_within:
  "col \<notin> set (drop (length row) fieldnames) \<Longrightarrow>
     map_of (dictreader_row fieldnames row) col =
     map_of (dictreader_row (take (length row) fieldnames) (take (length fieldnames) row)) col"
  by (simp add: dictreader_row_def map_of_fold_update_None zip_take_lengths)

lemma dictreader_row_lookup:
  assumes col: "col \<in> set fieldnames"
  shows "\<exists>entry. map_of (dictreader_row fieldnames row) col = Some entry \<and>
           (entry = None \<or> (\<exists>f \<in> set row. entry = Some f))"
proof (cases "col \<in> set (drop (length row) fieldnames)")
  case True
  from dictreader_row_beyond [OF this] show ?thesis by simp
next
  case False
  have "set fieldnames = set (take (length row) fieldnames) \<union> set (drop (length row) fieldnames)"
    using set_append [of "take (length row) fieldnames" "drop (length row) fieldnames"] by simp
  with col False have "col \<in> set (take (length row) fieldnames)" by blast
  also have "take (length row) fieldnames = map fst (zip fieldnames row)"
    by (simp add: map_fst_zip_take min_def take_all)
  finally have "col \<in> fst ` set (rev (zip fieldnames row))" by simp
  then obtain v where v: "map_of (rev (zip fieldnames row)) col = Some v"
    by (cases "map_of (rev (zip fieldnames row)) col") (simp_all add: map_of_eq_None_iff)
  then have "(col, v) \<in> set (zip fieldnames row)" by (auto dest: map_of_SomeD)
  then have "v \<in> set row" by (rule set_zip_rightD)
  with v False show ?thesis
    by (simp add: dictreader_row_def map_of_fold_update_None map_of_fold_update_Some)
qed

lemma row_data_cong:
  "\<forall>col \<in> set cols. map_of d col = map_of d' col \<Longrightarrow> row_data p d cols = row_data p d' cols"
  by (induction cols) (auto simp: getitem_def split: sum.splits option.splits)

lemma row_data_missing:
  "col \<in> set cols \<Longrightarrow> map_of d col = Some None \<Longrightarrow> \<exists>e. row_data p d cols = Inl e"
  by (induction cols) (auto simp: getitem_def preprocess_text_def split: sum.splits option.splits)

lemma encode_ascii_ok: "list_all is_ascii f \<Longrightarrow> \<exists>g. encode_ascii p f = Inr g"
  by (cases p) (simp_all add: encode_ascii_def)

lemma row_data_error_kind:
  "row_data p d cols = Inl e \<Longrightarrow>
   \<forall>col \<in> set cols. \<exists>entry. map_of d col = Some entry \<and>
      (entry = None \<or> (\<exists>f. entry = Some f \<and> list_all is_ascii f)) \<Longrightarrow>
   e = AttributeError"
proof (induction cols)
  case Nil
  then show ?case by simp
next
  case (Cons col cols)
  from Cons.prems(2) obtain entry where entry: "map_of d col = Some entry"
    and kind: "entry = None \<or> (\<exists>f. entry = Some f \<and> list_all is_ascii f)"
    by auto
  show ?case
  proof (cases entry)
    case None
    with entry Cons.prems(1) show ?thesis by (simp add: getitem_def preprocess_text_def)
  next
    case (Some f)
    with kind have "list_all is_ascii f" by simp
    from encode_ascii_ok [OF this] obtain g where "encode_ascii p f = Inr g" by blast
    with Some entry Cons.prems(1) have "row_data p d cols = Inl e"
      by (simp add: getitem_def preprocess_text_def split: sum.splits)
    from Cons.IH [OF this] Cons.prems(2) show ?thesis by simp
  qed
qed

lemma until_error_nth:
  "\<forall>x \<in> set xs. \<exists>t. x = Inr t \<Longrightarrow>
     length xs < length (until_error (xs @ y # ys)) \<and> until_error (xs @ y # ys) ! length xs = y"
proof (induction xs)
  case Nil
  then show ?case by (cases y) simp_all
next
  case (Cons x xs)
  then show ?case by auto
qed

text \<open>
  C9, as the code has it. The reader compares no column counts. A non-blank row in which a
  selected column lies beyond the last field raises an exception when it is read; the
  exception is AttributeError when the selected columns are header names and the fields of
  the row are ASCII. A row in which no selected column lies beyond the last field is read
  exactly like the row obtained by cutting header and row to their common length, so fields
  beyond the header are ignored. When the rows before it were read without error, the result
  of a non-blank row, its record or its exception, is what the reader yields at the
  position of that row: the row is not dropped and its exception reaches the caller.
\<close>

theorem C9_column_count_unchecked:
  "(set (cr_cols cr) \<inter> set (drop (length row) header) \<noteq> {} \<longrightarrow>
      (\<exists>e. make_row cr header row = Inl e)) \<and>
   (set (cr_cols cr) \<inter> set (drop (length row) header) \<noteq> {} \<and> set (cr_cols cr) \<subseteq> set header \<and>
      (\<forall>f \<in> set row. list_all is_ascii f) \<longrightarrow>
      make_row cr header row = Inl AttributeError) \<and>
   (set (cr_cols cr) \<inter> set (drop (length row) header) = {} \<longrightarrow>
      make_row cr header row = make_row cr (take (length row) header) (take (length header) row)) \<and>
   (cr_file cr = header # (pre @ row # post) \<and> namedtuple_ok (cr_aliases cr) \<and> row \<noteq> [] \<and>
      (\<forall>r \<in> set pre. r = [] \<or> (\<exists>t. make_row cr header r = Inr t)) \<longrightarrow>
      length (filter (\<lambda>r. r \<noteq> []) pre) < length (CleanReader_iter cr) \<and>
      CleanReader_iter cr ! length (filter (\<lambda>r. r \<noteq> []) pre) = make_row cr header row)"
proof (intro conjI impI)
  assume "set (cr_cols cr) \<inter> set (drop (length row) header) \<noteq> {}"
  then obtain col where col: "col \<in> set (cr_cols cr)" "col \<in> set (drop (length row) header)"
    by blast
  from row_data_missing [OF col(1) dictreader_row_beyond [OF col(2)]]
  obtain e where "row_data (cr_preprocessing cr) (dictreader_row header row) (cr_cols cr) = Inl e"
    by blast
  then show "\<exists>e. make_row cr header row = Inl e" by (simp add: make_row_def)
next
  assume a: "set (cr_cols cr) \<inter> set (drop (length row) header) \<noteq> {} \<and>
      set (cr_cols cr) \<subseteq> set header \<and> (\<forall>f \<in> set row. list_all is_ascii f)"
  then obtain col where col: "col \<in> set (cr_cols cr)" "col \<in> set (drop (length row) header)"
    by blast
  from row_data_missing [OF col(1) dictreader_row_beyond [OF col(2)]]
  obtain e where e: "row_data (cr_preprocessing cr) (dictreader_row header row) (cr_cols cr) = Inl e"
    by blast
  have "\<forall>col \<in> set (cr_cols cr). \<exists>entry. map_of (dictreader_row header row) col = Some entry \<and>
      (entry = None \<or> (\<exists>f. entry = Some f \<and> list_all is_ascii f))"
  proof
    fix col assume "col \<in> set (cr_cols cr)"
    with a have "col \<in> set header" by blast
    from dictreader_row_lookup [OF this, of row] a
    show "\<exists>entry. map_of (dictreader_row header row) col = Some entry \<and>
        (entry = None \<or> (\<exists>f. entry = Some f \<and> list_all is_ascii f))"
      by blast
  qed
  from row_data_error_kind [OF e this] e show "make_row cr header row = Inl AttributeError"
    by (simp add: make_row_def)
next
  assume "set (cr_cols cr) \<inter> set (drop (length row) header) = {}"
  then have "\<forall>col \<in> set (cr_cols cr). map_of (dictreader_row header row) col =
      map_of (dictreader_row (take (length row) header) (take (length header) row)) col"
    using dictreader_row_within by blast
  from row_data_cong [OF this]
  show "make_row cr header row = make_row cr (take (length row) header) (take (length header) row)"
    by (simp add: make_row_def)
next
  assume a: "cr_file cr = header # (pre @ row # post) \<and> namedtuple_ok (cr_aliases cr) \<and> row \<noteq> [] \<and>
      (\<forall>r \<in> set pre. r = [] \<or> (\<exists>t. make_row cr header r = Inr t))"
  let ?xs = "map (make_row cr header) (filter (\<lambda>r. r \<noteq> []) pre)"
  let ?ys = "map (make_row cr header) (filter (\<lambda>r. r \<noteq> []) post)"
  from a have items: "CleanReader_iter cr = until_error (?xs @ make_row cr header row # ?ys)"
    by (simp add: CleanReader_iter_def)
  from a have "\<forall>x \<in> set ?xs. \<exists>t. x = Inr t" by auto
  from until_error_nth [OF this, of "make_row cr header row" ?ys] items
  have at: "length (filter (\<lambda>r. r \<noteq> []) pre) < length (CleanReader_iter cr) \<and>
      CleanReader_iter cr ! length (filter (\<lambda>r. r \<noteq> []) pre) = make_row cr header row"
    by simp
  from at show "length (filter (\<lambda>r. r \<noteq> []) pre) < length (CleanReader_iter cr)" ..
  from at show "CleanReader_iter cr ! length (filter (\<lambda>r. r \<noteq> []) pre) = make_row cr header row" ..
qed

theorem C9_column_count_unchecked_witness:
  "make_row \<lparr>cr_file = [[''A'', ''B''], [''w'', ''v''], [''x'']], cr_cols = [''B''], cr_aliases = [''b''],
       cr_preprocessing = Strict\<rparr> [''A'', ''B''] [''x''] = Inl AttributeError \<and>
   CleanReader_iter \<lparr>cr_file = [[''A'', ''B''], [''w'', ''v''], [''x'']], cr_cols = [''B''],
       cr_aliases = [''b''], cr_preprocessing = Strict\<rparr> ! 1 = Inl AttributeError \<and>
   make_row \<lparr>cr_file = [[''A'', ''B''], [''x'', ''y'', ''z'']], cr_cols = [''A''], cr_aliases = [''a''],
       cr_preprocessing = Strict\<rparr> [''A'', ''B''] [''x'', ''y'', ''z''] =
     make_row \<lparr>cr_file = [[''A'', ''B''], [''x'', ''y'', ''z'']], cr_cols = [''A''], cr_aliases = [''a''],
       cr_preprocessing = Strict\<rparr> [''A'', ''B''] [''x'', ''y'']"
proof -
  let ?short = "\<lparr>cr_file = [[''A'', ''B''], [''w'', ''v''], [''x'']], cr_cols = [''B''],
       cr_aliases = [''b''], cr_preprocessing = Strict\<rparr>"
  let ?long = "\<lparr>cr_file = [[''A'', ''B''], [''x'', ''y'', ''z'']], cr_cols = [''A''],
       cr_aliases = [''a''], cr_preprocessing = Strict\<rparr>"
  note short = C9_column_count_unchecked [of ?short "[''x'']" "[''A'', ''B'']" "[[''w'', ''v'']]" "[]"]
  note long = C9_column_count_unchecked [of ?long "[''x'', ''y'', ''z'']" "[''A'', ''B'']" "[]" "[]"]
  have ascii: "\<forall>f \<in> set [''x'']. list_all is_ascii f" by (simp add: is_ascii_def)
  from short [THEN conjunct2, THEN conjunct1] ascii
  have fails: "make_row ?short [''A'', ''B''] [''x''] = Inl AttributeError" by simp
  have ok: "namedtuple_ok [''b'']"
    by (simp add: namedtuple_ok_def isidentifier_def is_alpha_us_def kwlist_def)
  have before: "make_row ?short [''A'', ''B''] [''w'', ''v''] = Inr [(''b'', ''v'')]"
    by (simp add: make_row_def dictreader_row_def getitem_def preprocess_text_def encode_ascii_def
        is_ascii_def strip_def is_space_def lower_def lower_char_def)
  from short [THEN conjunct2, THEN conjunct2, THEN conjunct2] ok before
  have "CleanReader_iter ?short ! 1 = make_row ?short [''A'', ''B''] [''x'']" by simp
  with fails have yielded: "CleanReader_iter ?short ! 1 = Inl AttributeError" by simp
  from long [THEN conjunct2, THEN conjunct2, THEN conjunct1]
  have eq: "make_row ?long [''A'', ''B''] [''x'', ''y'', ''z''] = make_row ?long [''A'', ''B''] [''x'', ''y'']"
    by simp
  show ?thesis by (intro conjI fails yielded eq)
qed

text \<open>
  A data row of three fields under a header of two: the reader yields a record and raises
  nothing.
\<close>

theorem C9_long_row_counterexample:
  "CleanReader_iter \<lparr>cr_file = [[''A'', ''B''], [''x'', ''y'', ''z'']], cr_cols = [''A''],
       cr_aliases = [''a''], cr_preprocessing = Strict\<rparr> = [Inr [(''a'', ''x'')]]"
  by (simp add: CleanReader_iter_def namedtuple_ok_def isidentifier_def is_alpha_us_def kwlist_def
      make_row_def dictreader_row_def getitem_def preprocess_text_def encode_ascii_def
      is_ascii_def strip_def is_space_def lower_def lower_char_def)

subsection \<open>Runs from related states\<close>

text \<open>
  Two states are related when they have the same constraints and registry and their counters
  are related by \<open>P\<close>. The files and the number of files parsed play no part in what a
  run does to the counters.
\<close>

definition rel_states ::
  "((string, counter) dict \<Rightarrow> (string, counter) dict \<Rightarrow> bool) \<Rightarrow> ('f, 'd) mfc \<Rightarrow> ('f, 'd) mfc \<Rightarrow> bool" where
  "rel_states P s t =
     (P (counters s) (counters t) \<and> constraints s = constraints t \<and>
      colname_list_dict s = colname_list_dict t)"

lemma constraints_satisfied_cong:
  "constraints s = constraints t \<Longrightarrow> constraints_satisfied lib s row = constraints_satisfied lib t row"
  by (simp add: constraints_satisfied_def)

lemma row_loop_frame:
  "row_loop lib s rs = (r, s') \<Longrightarrow>
     constraints s' = constraints s \<and> colname_list_dict s' = colname_list_dict s \<and>
     files s' = files s \<and> files_parsed s' = files_parsed s"
proof (induction lib s rs arbitrary: r s' rule: row_loop.induct)
  case (1 lib s)
  then show ?case by simp
next
  case (2 lib s e rest)
  then show ?case by auto
next
  case (3 lib s row_tup rest)
  show ?case
  proof (cases "constraints_satisfied lib s row_tup")
    case (Inl e)
    with 3(3) show ?thesis by auto
  next
    case (Inr ok)
    show ?thesis
    proof (cases ok)
      case False
      with Inr 3(3) have "row_loop lib s rest = (r, s')" by simp
      from 3(2) [OF Inr False this] show ?thesis .
    next
      case True
      obtain r1 cs where cl: "counter_loop (keys (counters s)) row_tup (counters s) = (r1, cs)"
        by (cases "counter_loop (keys (counters s)) row_tup (counters s)")
      show ?thesis
      proof (cases r1)
        case None
        with cl Inr True 3(3) have "row_loop lib (s\<lparr>counters := cs\<rparr>) rest = (r, s')" by simp
        from 3(1) [OF Inr True cl [symmetric, unfolded None] refl this]
        show ?thesis by simp
      next
        case (Some e)
        with cl Inr True 3(3) show ?thesis by auto
      qed
    qed
  qed
qed

lemma row_loop_rel:
  assumes step: "\<And>als row cs ds r1 cs' r2 ds'. P cs ds \<Longrightarrow> counter_loop als row cs = (r1, cs') \<Longrightarrow>
            counter_loop als row ds = (r2, ds') \<Longrightarrow> r1 = r2 \<and> P cs' ds'"
    and same_keys: "\<And>cs ds. P cs ds \<Longrightarrow> keys cs = keys ds"
  shows "rel_states P s t \<Longrightarrow> row_loop lib s rs = (r, s') \<Longrightarrow> row_loop lib t rs = (r', t') \<Longrightarrow>
           r = r' \<and> rel_states P s' t'"
proof (induction rs arbitrary: s t)
  case Nil
  then show ?case by simp
next
  case (Cons item rs)
  show ?case
  proof (cases item)
    case (Inl e)
    with Cons.prems show ?thesis by auto
  next
    case (Inr row)
    from Cons.prems(1) have con: "constraints s = constraints t"
      by (simp add: rel_states_def)
    note cs_eq = constraints_satisfied_cong [OF con, of lib row]
    show ?thesis
    proof (cases "constraints_satisfied lib s row")
      case (Inl e)
      with cs_eq have "constraints_satisfied lib t row = Inl e" by simp
      with Inl Inr Cons.prems show ?thesis by auto
    next
      case ok: (Inr ok)
      with cs_eq have ok_t: "constraints_satisfied lib t row = Inr ok" by simp
      show ?thesis
      proof (cases ok)
        case False
        with ok ok_t Inr Cons.prems(2,3)
        have "row_loop lib s rs = (r, s')" "row_loop lib t rs = (r', t')" by simp_all
        from Cons.IH [OF Cons.prems(1) this] show ?thesis .
      next
        case True
        from Cons.prems(1) have P: "P (counters s) (counters t)" by (simp add: rel_states_def)
        from same_keys [OF P] have k: "keys (counters t) = keys (counters s)" by simp
        obtain r1 cs' where c1: "counter_loop (keys (counters s)) row (counters s) = (r1, cs')"
          by (cases "counter_loop (keys (counters s)) row (counters s)")
        obtain r2 ds' where c2: "counter_loop (keys (counters s)) row (counters t) = (r2, ds')"
          by (cases "counter_loop (keys (counters s)) row (counters t)")
        from step [OF P c1 c2] have r12: "r1 = r2" and P': "P cs' ds'" by simp_all
        show ?thesis
        proof (cases r1)
          case None
          with ok ok_t True Inr c1 c2 k r12 Cons.prems(2,3)
          have l: "row_loop lib (s\<lparr>counters := cs'\<rparr>) rs = (r, s')"
            "row_loop lib (t\<lparr>counters := ds'\<rparr>) rs = (r', t')" by simp_all
          from Cons.prems(1) P' have "rel_states P (s\<lparr>counters := cs'\<rparr>) (t\<lparr>counters := ds'\<rparr>)"
            by (simp add: rel_states_def)
          from Cons.IH [OF this l] show ?thesis .
        next
          case (Some e)
          with ok ok_t True Inr c1 c2 k r12 Cons.prems P' show ?thesis
            by (auto simp: rel_states_def)
        qed
      qed
    qed
  qed
qed

lemma reader_for_cong:
  assumes eq: "colname_list_dict s = colname_list_dict t"
  shows "reader_for s file = reader_for t file"
  unfolding reader_for_def alias_dict_def colname_dict_def aliases_def eq by (rule refl)

lemma iter_file_frame:
  "iter_file lib s file = (r, s') \<Longrightarrow>
     constraints s' = constraints s \<and> colname_list_dict s' = colname_list_dict s \<and> files s' = files s"
proof -
  assume a: "iter_file lib s file = (r, s')"
  show ?thesis
  proof (cases "reader_for s file")
    case (Inl e)
    with a show ?thesis by (simp add: iter_file_def)
  next
    case (Inr cr)
    obtain r1 s1 where rl: "row_loop lib s (CleanReader_iter cr) = (r1, s1)"
      by (cases "row_loop lib s (CleanReader_iter cr)")
    from row_loop_frame [OF rl] a Inr rl show ?thesis
      by (cases r1) (auto simp: iter_file_def)
  qed
qed

lemma iter_file_rel:
  assumes step: "\<And>als row cs ds r1 cs' r2 ds'. P cs ds \<Longrightarrow> counter_loop als row cs = (r1, cs') \<Longrightarrow>
            counter_loop als row ds = (r2, ds') \<Longrightarrow> r1 = r2 \<and> P cs' ds'"
    and same_keys: "\<And>cs ds. P cs ds \<Longrightarrow> keys cs = keys ds"
    and rel: "rel_states P s t"
    and rs: "iter_file lib s file = (r, s')" and rt: "iter_file lib t file = (r', t')"
  shows "r = r' \<and> rel_states P s' t'"
proof -
  from rel have "colname_list_dict s = colname_list_dict t" by (simp add: rel_states_def)
  then have rd: "reader_for s file = reader_for t file" by (rule reader_for_cong)
  show ?thesis
  proof (cases "reader_for s file")
    case (Inl e)
    with rd have "reader_for t file = Inl e" by simp
    with Inl rs rt rel show ?thesis by (auto simp: iter_file_def)
  next
    case (Inr cr)
    with rd have rdt: "reader_for t file = Inr cr" by simp
    obtain r1 s1 where l1: "row_loop lib s (CleanReader_iter cr) = (r1, s1)"
      by (cases "row_loop lib s (CleanReader_iter cr)")
    obtain r2 t1 where l2: "row_loop lib t (CleanReader_iter cr) = (r2, t1)"
      by (cases "row_loop lib t (CleanReader_iter cr)")
    from row_loop_rel [of P, OF step same_keys rel l1 l2]
    have r12: "r1 = r2" and rel1: "rel_states P s1 t1" by simp_all
    from Inr rdt l1 l2 r12 rs rt rel1 show ?thesis
      by (cases r1) (auto simp: iter_file_def rel_states_def)
  qed
qed

lemma file_loop_frame:
  "file_loop lib s fs = (r, s') \<Longrightarrow>
     constraints s' = constraints s \<and> colname_list_dict s' = colname_list_dict s \<and> files s' = files s"
proof (induction fs arbitrary: s)
  case Nil
  then show ?case by simp
next
  case (Cons f fs)
  obtain r1 s1 where it: "iter_file lib s f = (r1, s1)" by (cases "iter_file lib s f")
  note fr = iter_file_frame [OF it]
  show ?case
  proof (cases r1)
    case None
    with it Cons.prems have "file_loop lib s1 fs = (r, s')" by simp
    from Cons.IH [OF this] fr show ?thesis by simp
  next
    case (Some e)
    with it Cons.prems fr show ?thesis by auto
  qed
qed

lemma file_loop_rel:
  assumes step: "\<And>als row cs ds r1 cs' r2 ds'. P cs ds \<Longrightarrow> counter_loop als row cs = (r1, cs') \<Longrightarrow>
            counter_loop als row ds = (r2, ds') \<Longrightarrow> r1 = r2 \<and> P cs' ds'"
    and same_keys: "\<And>cs ds. P cs ds \<Longrightarrow> keys cs = keys ds"
  shows "rel_states P s t \<Longrightarrow> file_loop lib s fs = (r, s') \<Longrightarrow> file_loop lib t fs = (r', t') \<Longrightarrow>
           r = r' \<and> rel_states P s' t'"
proof (induction fs arbitrary: s t)
  case Nil
  then show ?case by simp
next
  case (Cons f fs)
  obtain r1 s1 where i1: "iter_file lib s f = (r1, s1)" by (cases "iter_file lib s f")
  obtain r2 t1 where i2: "iter_file lib t f = (r2, t1)" by (cases "iter_file lib t f")
  from iter_file_rel [of P, OF step same_keys Cons.prems(1) i1 i2]
  have r12: "r1 = r2" and rel1: "rel_states P s1 t1" by simp_all
  show ?case
  proof (cases r1)
    case None
    with i1 i2 r12 Cons.prems(2,3)
    have "file_loop lib s1 fs = (r, s')" "file_loop lib t1 fs = (r', t')" by simp_all
    from Cons.IH [OF rel1 this] show ?thesis .
  next
    case (Some e)
    with i1 i2 r12 rel1 Cons.prems(2,3) show ?thesis by auto
  qed
qed


lemma row_loop_append:
  "row_loop lib s (xs @ ys) =
     (case row_loop lib s xs of (Some e, s') \<Rightarrow> (Some e, s') | (None, s') \<Rightarrow> row_loop lib s' ys)"
proof (induction lib s xs rule: row_loop.induct)
  case (1 lib s)
  then show ?case by simp
next
  case (2 lib s e rest)
  then show ?case by simp
next
  case (3 lib s row_tup rest)
  show ?case
  proof (cases "constraints_satisfied lib s row_tup")
    case (Inl e)
    then show ?thesis by simp
  next
    case (Inr ok)
    show ?thesis
    proof (cases ok)
      case False
      with Inr 3(2) show ?thesis by simp
    next
      case True
      obtain r1 cs where cl: "counter_loop (keys (counters s)) row_tup (counters s) = (r1, cs)"
        by (cases "counter_loop (keys (counters s)) row_tup (counters s)")
      show ?thesis
      proof (cases r1)
        case None
        from 3(1) [OF Inr True cl [symmetric, unfolded None] refl] Inr True cl None
        show ?thesis by simp
      next
        case (Some e)
        with Inr True cl show ?thesis by simp
      qed
    qed
  qed
qed

lemma counter_loop_eq_step:
  "cs = ds \<Longrightarrow> counter_loop als row cs = (r1, cs') \<Longrightarrow> counter_loop als row ds = (r2, ds') \<Longrightarrow>
     r1 = r2 \<and> cs' = ds'"
  by simp

subsection \<open>A file whose header lacks a required column\<close>






subsection \<open>One file split in two\<close>

lemma make_row_file: "make_row (cr\<lparr>cr_file := x\<rparr>) = make_row cr"
  by (rule ext)+ (simp add: make_row_def split: sum.splits)

lemma reader_for_file: "reader_for s file = Inr cr \<Longrightarrow> cr_file cr = file"
  by (auto simp: reader_for_def CleanReader_init_def split: sum.splits if_splits)

lemma reader_for_rows:
  "reader_for s (h # rows) =
     (case reader_for s (h # rows') of Inl e \<Rightarrow> Inl e | Inr cr \<Rightarrow> Inr (cr\<lparr>cr_file := h # rows\<rparr>))"
  by (simp add: reader_for_def alias_dict_def colname_dict_def CleanReader_init_def
      split: sum.splits)

lemma row_loop_until_error: "row_loop lib s (until_error items) = row_loop lib s items"
proof (induction items arbitrary: s)
  case Nil
  then show ?case by simp
next
  case (Cons item items)
  then show ?case
    by (cases item) (auto split: sum.splits prod.splits option.splits)
qed

lemma CleanReader_iter_rows:
  "namedtuple_ok (cr_aliases cr) \<Longrightarrow>
     row_loop lib s (CleanReader_iter (cr\<lparr>cr_file := h # rows\<rparr>)) =
       row_loop lib s (map (make_row cr h) (filter (\<lambda>r. r \<noteq> []) rows))"
  by (simp add: CleanReader_iter_def make_row_file row_loop_until_error)

lemma CleanReader_iter_debugger:
  "\<not> namedtuple_ok (cr_aliases cr) \<Longrightarrow> CleanReader_iter (cr\<lparr>cr_file := x\<rparr>) = [Inl DebuggerEntered]"
  by (simp add: CleanReader_iter_def)

lemma iter_file_reader:
  "reader_for s (h # rows') = Inr cr \<Longrightarrow>
     iter_file lib s (h # rows) =
       (case row_loop lib s (CleanReader_iter (cr\<lparr>cr_file := h # rows\<rparr>)) of
          (Some e, s') \<Rightarrow> (Some e, s')
        | (None, s') \<Rightarrow> (None, s'\<lparr>files_parsed := files_parsed s' + 1\<rparr>))"
  by (simp add: iter_file_def reader_for_rows [of s h rows rows'])

lemma iter_file_reader_fails:
  "reader_for s (h # rows') = Inl e \<Longrightarrow> iter_file lib s (h # rows) = (Some e, s)"
  by (simp add: iter_file_def reader_for_rows [of s h rows rows'])

lemma split_file:
  assumes rel: "rel_states (=) s t"
  shows "fst (file_loop lib s [h # rows1, h # rows2]) = fst (file_loop lib t [h # (rows1 @ rows2)]) \<and>
         counters (snd (file_loop lib s [h # rows1, h # rows2])) =
           counters (snd (file_loop lib t [h # (rows1 @ rows2)]))"
proof -
  from rel have cld: "colname_list_dict s = colname_list_dict t" and cnt: "counters s = counters t"
    by (simp_all add: rel_states_def)
  from cld have rd: "reader_for s (h # rows1) = reader_for t (h # rows1)"
    by (rule reader_for_cong)
  show ?thesis
  proof (cases "reader_for s (h # rows1)")
    case (Inl e)
    with rd have "reader_for t (h # rows1) = Inl e" by simp
    from iter_file_reader_fails [OF Inl] iter_file_reader_fails [OF this] cnt
    show ?thesis by simp
  next
    case (Inr cr)
    with rd have rt: "reader_for t (h # rows1) = Inr cr" by simp
    show ?thesis
    proof (cases "namedtuple_ok (cr_aliases cr)")
      case False
      from iter_file_reader [OF Inr] iter_file_reader [OF rt] CleanReader_iter_debugger [OF False] cnt
      show ?thesis by simp
    next
      case True
      let ?items1 = "map (make_row cr h) (filter (\<lambda>r. r \<noteq> []) rows1)"
      let ?items2 = "map (make_row cr h) (filter (\<lambda>r. r \<noteq> []) rows2)"
      obtain ra sa where a: "row_loop lib s ?items1 = (ra, sa)" by (cases "row_loop lib s ?items1")
      obtain rb sb where b: "row_loop lib t ?items1 = (rb, sb)" by (cases "row_loop lib t ?items1")
      from row_loop_rel [of "(=)", OF counter_loop_eq_step _ rel a b]
      have r: "rb = ra" and rel1: "rel_states (=) sa sb" by simp_all
      have single: "iter_file lib t (h # (rows1 @ rows2)) =
          (case row_loop lib t (?items1 @ ?items2) of
             (Some e, s') \<Rightarrow> (Some e, s')
           | (None, s') \<Rightarrow> (None, s'\<lparr>files_parsed := files_parsed s' + 1\<rparr>))"
        by (simp add: iter_file_reader [OF rt] CleanReader_iter_rows [OF True])
      have first: "iter_file lib s (h # rows1) =
          (case row_loop lib s ?items1 of
             (Some e, s') \<Rightarrow> (Some e, s')
           | (None, s') \<Rightarrow> (None, s'\<lparr>files_parsed := files_parsed s' + 1\<rparr>))"
        by (simp add: iter_file_reader [OF Inr] CleanReader_iter_rows [OF True])
      show ?thesis
      proof (cases ra)
        case (Some e)
        with a b r rel1 single first show ?thesis
          by (simp add: row_loop_append rel_states_def)
      next
        case None
        let ?sa = "sa\<lparr>files_parsed := files_parsed sa + 1\<rparr>"
        from row_loop_frame [OF a] have "colname_list_dict ?sa = colname_list_dict s" by simp
        from reader_for_cong [OF this] Inr have "reader_for ?sa (h # rows1) = Inr cr" by simp
        from iter_file_reader [OF this]
        have second: "iter_file lib ?sa (h # rows2) =
            (case row_loop lib ?sa ?items2 of
               (Some e, s') \<Rightarrow> (Some e, s')
             | (None, s') \<Rightarrow> (None, s'\<lparr>files_parsed := files_parsed s' + 1\<rparr>))"
          by (simp add: CleanReader_iter_rows [OF True])
        obtain rc sc where c: "row_loop lib ?sa ?items2 = (rc, sc)"
          by (cases "row_loop lib ?sa ?items2")
        obtain rd' sd where d: "row_loop lib sb ?items2 = (rd', sd)"
          by (cases "row_loop lib sb ?items2")
        from rel1 have "rel_states (=) ?sa sb" by (simp add: rel_states_def)
        from row_loop_rel [of "(=)", OF counter_loop_eq_step _ this c d]
        have r2: "rd' = rc" and rel2: "rel_states (=) sc sd" by simp_all
        from a b r None c d r2 rel2 single first second show ?thesis
          by (cases rc) (simp_all add: row_loop_append rel_states_def)
      qed
    qed
  qed
qed

text \<open>
  C4. Splitting the data rows of a file over two files with the same header changes
  neither the outcome of the run nor any counter: \<^verbatim>\<open>count\<close> on the two files, with the
  same registry, constraints and counters, leaves the same counters as on the single file.
\<close>

theorem C4_partition_invariance:
  "fst (count lib (s\<lparr>files := [header # rows1, header # rows2]\<rparr>)) =
     fst (count lib (s\<lparr>files := [header # (rows1 @ rows2)]\<rparr>)) \<and>
   counters (snd (count lib (s\<lparr>files := [header # rows1, header # rows2]\<rparr>))) =
     counters (snd (count lib (s\<lparr>files := [header # (rows1 @ rows2)]\<rparr>)))"
proof -
  have "rel_states (=) (s\<lparr>files := [header # rows1, header # rows2]\<rparr>)
      (s\<lparr>files := [header # (rows1 @ rows2)]\<rparr>)"
    by (simp add: rel_states_def)
  from split_file [OF this] show ?thesis by (simp add: count_def)
qed

subsection \<open>Running twice\<close>

text \<open>The count of value \<open>k\<close> in the counter of alias \<open>a\<close>; 0 when either is absent.\<close>

definition cnt :: "(string, counter) dict \<Rightarrow> string \<Rightarrow> string \<Rightarrow> int" where
  "cnt cs a k = (case map_of cs a of None \<Rightarrow> 0 | Some c \<Rightarrow> counter_get c k)"

text \<open>Two counter dictionaries with the same aliases whose counts differ by \<open>D\<close> everywhere.\<close>

definition shifted ::
  "(string \<Rightarrow> string \<Rightarrow> int) \<Rightarrow> (string, counter) dict \<Rightarrow> (string, counter) dict \<Rightarrow> bool" where
  "shifted D cs ds = (keys cs = keys ds \<and> (\<forall>a k. cnt ds a k = cnt cs a k + D a k))"

lemma keys_update_present: "map_of cs a = Some c \<Longrightarrow> keys (AList.update a v cs) = keys cs"
  by (auto simp: keys_def update_keys dest!: map_of_SomeD intro: rev_image_eqI)

lemma cnt_update:
  "map_of cs a = Some c \<Longrightarrow>
     cnt (AList.update a (counter_incr c v) cs) a' k =
       cnt cs a' k + (if a' = a \<and> k = v then 1 else 0)"
  by (simp add: cnt_def update_conv' counter_incr_def counter_get_def)

lemma map_of_None_keys: "map_of cs a = None \<longleftrightarrow> a \<notin> set (keys cs)"
  by (simp add: keys_def map_of_eq_None_iff)

lemma counter_loop_keys: "counter_loop als row cs = (r, cs') \<Longrightarrow> keys cs' = keys cs"
proof (induction als arbitrary: cs)
  case Nil
  then show ?case by simp
next
  case (Cons a als)
  show ?case
  proof (cases "map_of cs a")
    case None
    with Cons.prems show ?thesis by (simp add: getitem_def)
  next
    case (Some c)
    show ?thesis
    proof (cases "getattr row a")
      case (Inl e)
      with Some Cons.prems show ?thesis by (simp add: getitem_def)
    next
      case (Inr v)
      with Some Cons.prems
      have "counter_loop als row (AList.update a (counter_incr c v) cs) = (r, cs')"
        by (simp add: getitem_def)
      from Cons.IH [OF this] keys_update_present [OF Some] show ?thesis by simp
    qed
  qed
qed

lemma counter_loop_shifted:
  "shifted D cs ds \<Longrightarrow> counter_loop als row cs = (r1, cs') \<Longrightarrow>
     counter_loop als row ds = (r2, ds') \<Longrightarrow> r1 = r2 \<and> shifted D cs' ds'"
proof (induction als arbitrary: cs ds)
  case Nil
  then show ?case by simp
next
  case (Cons a als)
  from Cons.prems(1) have k: "keys cs = keys ds" by (simp add: shifted_def)
  show ?case
  proof (cases "map_of cs a")
    case None
    with k have "map_of ds a = None" by (simp add: map_of_None_keys)
    with None Cons.prems show ?thesis by (simp add: getitem_def)
  next
    case (Some c)
    then have "a \<in> set (keys cs)" using map_of_None_keys [of cs a] by simp
    with k have "map_of ds a \<noteq> None" using map_of_None_keys [of ds a] by simp
    then obtain d where d: "map_of ds a = Some d" by auto
    show ?thesis
    proof (cases "getattr row a")
      case (Inl e)
      with Some d Cons.prems show ?thesis by (simp add: getitem_def)
    next
      case (Inr v)
      let ?cs = "AList.update a (counter_incr c v) cs" and ?ds = "AList.update a (counter_incr d v) ds"
      from Inr Some d Cons.prems(2,3)
      have l: "counter_loop als row ?cs = (r1, cs')" "counter_loop als row ?ds = (r2, ds')"
        by (simp_all add: getitem_def)
      from Cons.prems(1) k have "shifted D ?cs ?ds"
        by (simp add: shifted_def keys_update_present [OF Some] keys_update_present [OF d]
            cnt_update [OF Some] cnt_update [OF d])
      from Cons.IH [OF this l] show ?thesis .
    qed
  qed
qed

lemma row_loop_keys: "row_loop lib s rs = (r, s') \<Longrightarrow> keys (counters s') = keys (counters s)"
proof (induction lib s rs arbitrary: r s' rule: row_loop.induct)
  case (1 lib s)
  then show ?case by simp
next
  case (2 lib s e rest)
  then show ?case by auto
next
  case (3 lib s row_tup rest)
  show ?case
  proof (cases "constraints_satisfied lib s row_tup")
    case (Inl e)
    with 3(3) show ?thesis by auto
  next
    case (Inr ok)
    show ?thesis
    proof (cases ok)
      case False
      with Inr 3(3) have "row_loop lib s rest = (r, s')" by simp
      from 3(2) [OF Inr False this] show ?thesis .
    next
      case True
      obtain r1 cs where cl: "counter_loop (keys (counters s)) row_tup (counters s) = (r1, cs)"
        by (cases "counter_loop (keys (counters s)) row_tup (counters s)")
      note ck = counter_loop_keys [OF cl]
      show ?thesis
      proof (cases r1)
        case None
        with cl Inr True 3(3) have "row_loop lib (s\<lparr>counters := cs\<rparr>) rest = (r, s')" by simp
        from 3(1) [OF Inr True cl [symmetric, unfolded None] refl this] ck
        show ?thesis by simp
      next
        case (Some e)
        with cl Inr True 3(3) ck show ?thesis by auto
      qed
    qed
  qed
qed

lemma iter_file_keys: "iter_file lib s f = (r, s') \<Longrightarrow> keys (counters s') = keys (counters s)"
proof -
  assume a: "iter_file lib s f = (r, s')"
  show ?thesis
  proof (cases "reader_for s f")
    case (Inl e)
    with a show ?thesis by (simp add: iter_file_def)
  next
    case (Inr cr)
    obtain r1 s1 where rl: "row_loop lib s (CleanReader_iter cr) = (r1, s1)"
      by (cases "row_loop lib s (CleanReader_iter cr)")
    from row_loop_keys [OF rl] a Inr rl show ?thesis
      by (cases r1) (auto simp: iter_file_def)
  qed
qed

lemma file_loop_keys: "file_loop lib s fs = (r, s') \<Longrightarrow> keys (counters s') = keys (counters s)"
proof (induction fs arbitrary: s)
  case Nil
  then show ?case by simp
next
  case (Cons f fs)
  obtain r1 s1 where it: "iter_file lib s f = (r1, s1)" by (cases "iter_file lib s f")
  note k = iter_file_keys [OF it]
  show ?case
  proof (cases r1)
    case None
    with it Cons.prems have "file_loop lib s1 fs = (r, s')" by simp
    from Cons.IH [OF this] k show ?thesis by simp
  next
    case (Some e)
    with it Cons.prems k show ?thesis by auto
  qed
qed

text \<open>
  C5. On an instance whose counters held no count before the first run, a second
  \<^verbatim>\<open>count()\<close> after a completed first one completes as well, keeps the same counters,
  and leaves every count at exactly twice its value after the first run.
\<close>

theorem C5_second_run_doubles:
  fixes s :: "('f, 'd) mfc"
  assumes fresh: "\<forall>a k. cnt (counters s) a k = 0"
    and first: "count lib s = (None, s1)"
  shows "\<exists>s2. count lib s1 = (None, s2) \<and> keys (counters s2) = keys (counters s1) \<and>
           (\<forall>a k. cnt (counters s2) a k = 2 * cnt (counters s1) a k)"
proof -
  from first have run1: "file_loop lib s (files s) = (None, s1)" by (simp add: count_def)
  note fr = file_loop_frame [OF run1]
  obtain r2 s2 where run2: "file_loop lib s1 (files s) = (r2, s2)"
    by (cases "file_loop lib s1 (files s)")
  let ?D = "cnt (counters s1)"
  from file_loop_keys [OF run1] fresh fr have rel0: "rel_states (shifted ?D) s s1"
    by (simp add: rel_states_def shifted_def)
  have sk: "keys cs = keys ds" if "shifted ?D cs ds" for cs ds
    using that by (simp add: shifted_def)
  from file_loop_rel [of "shifted ?D", OF counter_loop_shifted sk rel0 run1 run2]
  have r: "r2 = None" and rel: "rel_states (shifted ?D) s1 s2"
    by simp_all
  from run2 r fr have "count lib s1 = (None, s2)" by (simp add: count_def)
  moreover from rel have "keys (counters s2) = keys (counters s1)"
    by (simp add: rel_states_def shifted_def)
  moreover from rel have "\<forall>a k. cnt (counters s2) a k = 2 * cnt (counters s1) a k"
    by (simp add: rel_states_def shifted_def)
  ultimately show ?thesis by blast
qed

theorem C5_second_run_doubles_witness:
  "count example_lib \<lparr>files =
       [[[''ID'', ''STATUS'', ''OCCUPATION''], [''1'', ''certified'', ''nurse''],
         [''2'', ''denied'', ''nurse''], [''3'', ''certified'', ''welder'']],
        [[''ID'', ''STATUS'', ''OCCUPATION''], [''4'', ''certified'', ''nurse''],
         [''5'', ''certified'', ''welder''], [''6'', ''certified'', ''welder'']]],
     colname_list_dict = Some [(''status'', [''STATUS'']), (''occupation'', [''OCCUPATION''])],
     counters = [(''occupation'', [])],
     constraints = [\<lparr>con_alias = ''status'', con_cmp = Eq, con_val = PStr ''certified''\<rparr>],
     files_parsed = 0\<rparr> =
   (None, \<lparr>files =
       [[[''ID'', ''STATUS'', ''OCCUPATION''], [''1'', ''certified'', ''nurse''],
         [''2'', ''denied'', ''nurse''], [''3'', ''certified'', ''welder'']],
        [[''ID'', ''STATUS'', ''OCCUPATION''], [''4'', ''certified'', ''nurse''],
         [''5'', ''certified'', ''welder''], [''6'', ''certified'', ''welder'']]],
     colname_list_dict = Some [(''status'', [''STATUS'']), (''occupation'', [''OCCUPATION''])],
     counters = [(''occupation'', [(''nurse'', 2), (''welder'', 3)])],
     constraints = [\<lparr>con_alias = ''status'', con_cmp = Eq, con_val = PStr ''certified''\<rparr>],
     files_parsed = 2\<rparr>) \<and>
   (\<exists>s2. count example_lib \<lparr>files =
       [[[''ID'', ''STATUS'', ''OCCUPATION''], [''1'', ''certified'', ''nurse''],
         [''2'', ''denied'', ''nurse''], [''3'', ''certified'', ''welder'']],
        [[''ID'', ''STATUS'', ''OCCUPATION''], [''4'', ''certified'', ''nurse''],
         [''5'', ''certified'', ''welder''], [''6'', ''certified'', ''welder'']]],
     colname_list_dict = Some [(''status'', [''STATUS'']), (''occupation'', [''OCCUPATION''])],
     counters = [(''occupation'', [(''nurse'', 2), (''welder'', 3)])],
     constraints = [\<lparr>con_alias = ''status'', con_cmp = Eq, con_val = PStr ''certified''\<rparr>],
     files_parsed = 2\<rparr> = (None, s2) \<and>
     cnt (counters s2) ''occupation'' ''nurse'' = 4 \<and>
     cnt (counters s2) ''occupation'' ''welder'' = 6)"
proof -
  let ?fs = "[[[''ID'', ''STATUS'', ''OCCUPATION''], [''1'', ''certified'', ''nurse''],
         [''2'', ''denied'', ''nurse''], [''3'', ''certified'', ''welder'']],
        [[''ID'', ''STATUS'', ''OCCUPATION''], [''4'', ''certified'', ''nurse''],
         [''5'', ''certified'', ''welder''], [''6'', ''certified'', ''welder'']]]"
  let ?reg = "Some [(''status'', [''STATUS'']), (''occupation'', [''OCCUPATION''])]"
  let ?cons = "[\<lparr>con_alias = ''status'', con_cmp = Eq,
      con_val = PStr ''certified'' :: (int \<times> int, unit) pyval\<rparr>]"
  let ?s = "\<lparr>files = ?fs, colname_list_dict = ?reg, counters = [(''occupation'', [])],
     constraints = ?cons, files_parsed = 0\<rparr>"
  let ?s1 = "\<lparr>files = ?fs, colname_list_dict = ?reg,
     counters = [(''occupation'', [(''nurse'', 2), (''welder'', 3)])],
     constraints = ?cons, files_parsed = 2\<rparr>"
  have fresh: "\<forall>a k. cnt (counters ?s) a k = 0"
    by (simp add: cnt_def counter_get_def)
  have first: "count example_lib ?s = (None, ?s1)"
    by code_simp
  from C5_second_run_doubles [OF fresh first] obtain s2
    where s2: "count example_lib ?s1 = (None, s2)"
      and dbl: "\<forall>a k. cnt (counters s2) a k = 2 * cnt (counters ?s1) a k"
    by blast
  from dbl have "cnt (counters s2) ''occupation'' ''nurse'' = 4"
    "cnt (counters s2) ''occupation'' ''welder'' = 6"
    by (simp_all add: cnt_def counter_get_def)
  with s2 first show ?thesis by blast
qed

subsection \<open>The report body\<close>














end
